theory Spec2Isabelle
  imports Main
begin

section \<open>SCM version resolution of autobuild (\<^verbatim>\<open>autobuild/scm/git.py\<close>)\<close>

subsection \<open>Errors\<close>

text \<open>
  Every raise of the source is a value. \<open>ValueError\<close> is what Python raises when a
  sequence unpacks into the wrong number of names and when \<open>int\<close> rejects its argument;
  \<open>CmdError\<close> stands for whatever the process runner raises, with its diagnostic text.
\<close>

datatype error = ValueError | CmdError string

subsection \<open>Python string operations used by the parser\<close>

definition endswith :: "string \<Rightarrow> string \<Rightarrow> bool" where
  "endswith s suf = (take (length suf) (rev s) = rev suf)"

text \<open>\<open>s[:-n]\<close> for a positive \<open>n\<close>: everything but the last \<open>n\<close> characters.\<close>

definition drop_last :: "nat \<Rightarrow> string \<Rightarrow> string" where
  "drop_last n s = take (length s - n) s"

text \<open>
  \<open>str.split(sep, maxsplit)\<close> for a one-character separator: cut at the first
  \<open>maxsplit\<close> occurrences, scanning from the left.
\<close>

fun split_max :: "char \<Rightarrow> nat \<Rightarrow> string \<Rightarrow> string list" where
  "split_max sep 0 s = [s]"
| "split_max sep (Suc k) s =
     (if sep \<in> set s
      then takeWhile (\<lambda>c. c \<noteq> sep) s # split_max sep k (tl (dropWhile (\<lambda>c. c \<noteq> sep) s))
      else [s])"

text \<open>
  \<open>str.rsplit(sep, maxsplit)\<close>: the same scan from the right end; the pieces come back
  in their left-to-right order.
\<close>

definition rsplit :: "char \<Rightarrow> nat \<Rightarrow> string \<Rightarrow> string list" where
  "rsplit sep k s = rev (map rev (split_max sep k (rev s)))"

text \<open>\<open>xs[-n:]\<close>: the last \<open>n\<close> elements, or all of them when there are fewer.\<close>

definition last_n :: "nat \<Rightarrow> 'a list \<Rightarrow> 'a list" where
  "last_n n xs = drop (length xs - n) xs"

text \<open>\<open>s.lstrip("v")\<close>: every leading \<open>v\<close> goes.\<close>

definition lstrip :: "char \<Rightarrow> string \<Rightarrow> string" where
  "lstrip ch s = dropWhile (\<lambda>c. c = ch) s"

subsection \<open>Decimal text of integers\<close>

definition digit_char :: "nat \<Rightarrow> char" where
  "digit_char d = ''0123456789'' ! d"

fun str_nat :: "nat \<Rightarrow> string" where
  "str_nat n = (if n < 10 then [digit_char n] else str_nat (n div 10) @ [digit_char (n mod 10)])"

declare str_nat.simps [simp del]

text \<open>\<open>str(i)\<close> of a Python integer, as an f-string field prints it.\<close>

definition str_int :: "int \<Rightarrow> string" where
  "str_int i = (if i < 0 then CHR ''-'' # str_nat (nat (- i)) else str_nat (nat i))"

definition digit_of :: "char \<Rightarrow> nat option" where
  "digit_of c =
     map_of [(CHR ''0'', 0), (CHR ''1'', 1), (CHR ''2'', 2), (CHR ''3'', 3), (CHR ''4'', 4),
             (CHR ''5'', 5), (CHR ''6'', 6), (CHR ''7'', 7), (CHR ''8'', 8), (CHR ''9'', 9)] c"

text \<open>
  The whitespace \<open>int\<close> skips at both ends of its argument, in the ASCII range: tab, line
  feed, vertical tab, form feed, carriage return, the four separators \<open>0x1c\<close> to \<open>0x1f\<close>
  and the space.
\<close>

definition is_space :: "char \<Rightarrow> bool" where
  "is_space c = (c \<in> set [CHR 0x09, CHR 0x0A, CHR 0x0B, CHR 0x0C, CHR 0x0D,
                           CHR 0x1C, CHR 0x1D, CHR 0x1E, CHR 0x1F, CHR 0x20])"

definition strip :: "string \<Rightarrow> string" where
  "strip s = rev (dropWhile is_space (rev (dropWhile is_space s)))"

text \<open>
  The digits of an integer literal after the first one: a digit, or one underscore
  followed by a digit. \<open>acc\<close> is the value read so far.
\<close>

fun digits_val :: "nat \<Rightarrow> string \<Rightarrow> nat option" where
  "digits_val acc [] = Some acc"
| "digits_val acc [c] = (case digit_of c of Some v \<Rightarrow> Some (acc * 10 + v) | None \<Rightarrow> None)"
| "digits_val acc (c # d # ds) =
     (if c = CHR ''_''
      then (case digit_of d of Some v \<Rightarrow> digits_val (acc * 10 + v) ds | None \<Rightarrow> None)
      else (case digit_of c of Some v \<Rightarrow> digits_val (acc * 10 + v) (d # ds) | None \<Rightarrow> None))"

definition py_digits :: "string \<Rightarrow> nat option" where
  "py_digits s =
     (case s of [] \<Rightarrow> None
      | c # cs \<Rightarrow> (case digit_of c of Some v \<Rightarrow> digits_val v cs | None \<Rightarrow> None))"

text \<open>
  \<open>int(s)\<close> in base ten on ASCII text: surrounding whitespace is skipped, one sign is
  allowed, the digits may be grouped by single underscores; anything else raises
  \<open>ValueError\<close>. (The interpreter's configurable limit on the number of digits is left
  out.)
\<close>

definition py_int :: "string \<Rightarrow> error + int" where
  "py_int s =
     (let t = strip s;
          neg = (t \<noteq> [] \<and> hd t = CHR ''-'');
          u = (if t \<noteq> [] \<and> (hd t = CHR ''-'' \<or> hd t = CHR ''+'') then tl t else t)
      in case py_digits u of
           None \<Rightarrow> Inl ValueError
         | Some n \<Rightarrow> Inr (if neg then - int n else int n))"

subsection \<open>Semantic versions\<close>

text \<open>
  Modelled from the spec: the class \<open>Semver\<close> is defined in
  \<^verbatim>\<open>autobuild/scm/base.py\<close>. Its attributes are three non-negative integers and an
  optional pre-release label.
\<close>

record Semver =
  major :: nat
  minor :: nat
  patch :: nat
  prerelease :: "string option"

text \<open>
  Modelled from the spec: \<open>Semver.next\<close> is defined in \<^verbatim>\<open>autobuild/scm/base.py\<close>. It
  returns a new instance with patch incremented by one and pre-release cleared.
\<close>

definition Semver_next :: "Semver \<Rightarrow> Semver" where
  "Semver_next v = \<lparr>major = major v, minor = minor v, patch = patch v + 1, prerelease = None\<rparr>"

text \<open>
  Modelled from the spec: \<open>Semver.__str__\<close> is defined in \<^verbatim>\<open>autobuild/scm/base.py\<close>. The
  text of a version is \<open>major.minor.patch[-prerelease]\<close>.
\<close>

definition Semver_str :: "Semver \<Rightarrow> string" where
  "Semver_str v =
     str_nat (major v) @ ''.'' @ str_nat (minor v) @ ''.'' @ str_nat (patch v) @
     (case prerelease v of None \<Rightarrow> [] | Some p \<Rightarrow> CHR ''-'' # p)"

text \<open>A number written in decimal digits and nothing else.\<close>

definition all_digits :: "string \<Rightarrow> bool" where
  "all_digits s = (s \<noteq> [] \<and> list_all (\<lambda>c. digit_of c \<noteq> None) s)"

definition dec_nat :: "string \<Rightarrow> nat option" where
  "dec_nat s = (if all_digits s then py_digits s else None)"

text \<open>
  Modelled from the spec: \<open>Semver.parse\<close> is defined in \<^verbatim>\<open>autobuild/scm/base.py\<close>. It
  accepts the strings \<open>major.minor.patch[-prerelease]\<close>, the three numbers in decimal
  digits and the label not empty, and answers "not a semantic version" (\<open>None\<close>) on
  everything else. The functions of this module take \<open>Semver.parse\<close> as a parameter;
  this is the instance the concrete runs use.
\<close>

definition Semver_parse :: "string \<Rightarrow> Semver option" where
  "Semver_parse s =
     (let core = takeWhile (\<lambda>c. c \<noteq> CHR ''-'') s;
          rest = dropWhile (\<lambda>c. c \<noteq> CHR ''-'') s
      in case split_max CHR ''.'' 3 core of
           [a, b, c] \<Rightarrow>
             (case (dec_nat a, dec_nat b, dec_nat c) of
                (Some x, Some y, Some z) \<Rightarrow>
                  if length rest = 1 then None
                  else Some \<lparr>major = x, minor = y, patch = z,
                             prerelease = (if rest = [] then None else Some (tl rest))\<rparr>
              | _ \<Rightarrow> None)
         | _ \<Rightarrow> None)"

subsection \<open>The parsed descriptor\<close>

text \<open>The version field of \<open>GitMeta\<close> is \<open>Semver | str\<close>.\<close>

datatype version = VSemver Semver | VStr string

record GitMeta =
  dirty :: bool
  distance :: int
  commit :: string
  version :: version

text \<open>
  \<open>_parse_describe\<close>. \<open>parse\<close> is \<open>Semver.parse\<close>; \<open>Semver.parse(raw_tag) or
  raw_tag.lstrip("v")\<close> takes the parsed version when there is one (an instance is
  truthy) and the stripped tag otherwise. Unpacking the last three pieces into three
  names raises when there are fewer than three; \<open>int\<close> raises on a distance it cannot
  read; \<open>commit[1:]\<close> drops the first character of the last piece.
\<close>

definition parse_describe :: "(string \<Rightarrow> Semver option) \<Rightarrow> string \<Rightarrow> error + GitMeta" where
  "parse_describe parse describe0 =
     (let is_dirty = endswith describe0 ''-dirty'';
          describe = (if is_dirty then drop_last 6 describe0 else describe0)
      in case last_n 3 (rsplit CHR ''-'' (if is_dirty then 3 else 2) describe) of
           [raw_tag, distance_s, commit_s] \<Rightarrow>
             (case py_int distance_s of
                Inl e \<Rightarrow> Inl e
              | Inr d \<Rightarrow>
                  Inr \<lparr>dirty = is_dirty, distance = d, commit = drop 1 commit_s,
                       version = (case parse raw_tag of
                                    Some v \<Rightarrow> VSemver v
                                  | None \<Rightarrow> VStr (lstrip CHR ''v'' raw_tag))\<rparr>)
         | _ \<Rightarrow> Inl ValueError)"

subsection \<open>Paths and the host\<close>

text \<open>
  A \<open>pathlib\<close> path: its anchor (empty for a relative path) and its components.
  \<open>parent\<close> is lexical: it drops the last component, and a path without components is
  its own parent.
\<close>

record path =
  anchor :: string
  parts :: "string list"

definition parent :: "path \<Rightarrow> path" where
  "parent p = (if parts p = [] then p else p\<lparr>parts := butlast (parts p)\<rparr>)"

text \<open>\<open>p / name\<close> for a single relative component.\<close>

definition joinpath :: "path \<Rightarrow> string \<Rightarrow> path" where
  "joinpath p name = p\<lparr>parts := parts p @ [name]\<rparr>"

fun join_with :: "string \<Rightarrow> string list \<Rightarrow> string" where
  "join_with sep [] = []"
| "join_with sep [x] = x"
| "join_with sep (x # y # ys) = x @ sep @ join_with sep (y # ys)"

definition path_str :: "path \<Rightarrow> string" where
  "path_str p =
     (if anchor p = [] \<and> parts p = [] then ''.'' else anchor p @ join_with ''/'' (parts p))"

text \<open>
  What the module asks of its host. \<open>has_cmd\<close>, \<open>is_env_disabled\<close> and \<open>cmd\<close> are
  imported from \<^verbatim>\<open>autobuild/common.py\<close>, \<open>date\<close> and \<open>Semver.parse\<close> from
  \<^verbatim>\<open>autobuild/scm/base.py\<close>; \<open>is_dir\<close> is the file system. \<open>has_cmd\<close>,
  \<open>is_env_disabled\<close> and \<open>is_dir\<close> answer a truth value; \<open>cmd\<close> answers the standard
  output of the process or raises; \<open>date\<close> is the text \<open>YYYYMMDD\<close> of the day.
\<close>

record host =
  has_cmd :: "string \<Rightarrow> bool"
  is_env_disabled :: "string \<Rightarrow> bool"
  is_dir :: "path \<Rightarrow> bool"
  cmd :: "string list \<Rightarrow> error + string"
  date :: string
  semver_parse :: "string \<Rightarrow> Semver option"

text \<open>The calls a function makes on its host, in the order it makes them.\<close>

datatype event =
    HasCmd string
  | IsDir path
  | EnvDisabled string
  | Cmd "string list"

definition after :: "event list \<Rightarrow> event list \<times> 'a \<Rightarrow> event list \<times> 'a" where
  "after evs r = (evs @ fst r, snd r)"

subsection \<open>Finding the repository root\<close>

definition MAX_GIT_SEARCH_DEPTH :: int where
  "MAX_GIT_SEARCH_DEPTH = 20"

text \<open>
  \<open>_find_repo_dir\<close>, with the calls it made. The recursion ends because \<open>level\<close> grows
  towards the bound.
\<close>

function find_repo_dir :: "host \<Rightarrow> path \<Rightarrow> int \<Rightarrow> event list \<times> path option" where
  "find_repo_dir h start level =
     (if level \<ge> MAX_GIT_SEARCH_DEPTH then ([], None)
      else if is_dir h (joinpath start ''.git'')
        then ([IsDir (joinpath start ''.git'')], Some start)
      else if is_env_disabled h ''AUTOBUILD_SCM_SEARCH''
        then ([IsDir (joinpath start ''.git''), EnvDisabled ''AUTOBUILD_SCM_SEARCH''], None)
      else if parent start = start
        then ([IsDir (joinpath start ''.git''), EnvDisabled ''AUTOBUILD_SCM_SEARCH''], None)
      else after [IsDir (joinpath start ''.git''), EnvDisabled ''AUTOBUILD_SCM_SEARCH'']
             (find_repo_dir h (parent start) (level + 1)))"
  by pat_completeness auto
termination
  by (relation "measure (\<lambda>(h, start, level). nat (MAX_GIT_SEARCH_DEPTH - level))")
     (auto simp: MAX_GIT_SEARCH_DEPTH_def)

declare find_repo_dir.simps [simp del]

subsection \<open>The repository handle\<close>

record Git =
  repo_dir :: "path option"

text \<open>
  \<open>Git.__init__\<close>: the root is looked for once, from level \<open>0\<close>. \<open>root\<close> is the path
  that \<open>Path(root)\<close> makes of the caller's string.
\<close>

definition Git_init :: "host \<Rightarrow> path \<Rightarrow> event list \<times> Git" where
  "Git_init h root = (case find_repo_dir h root 0 of (evs, r) \<Rightarrow> (evs, \<lparr>repo_dir = r\<rparr>))"

text \<open>\<open>str(self.repo_dir)\<close>; \<open>str(None)\<close> is the text \<open>None\<close>.\<close>

definition repo_dir_str :: "Git \<Rightarrow> string" where
  "repo_dir_str g = (case repo_dir g of None \<Rightarrow> ''None'' | Some d \<Rightarrow> path_str d)"

text \<open>\<open>Git._git\<close>: one run of the tool; the result is its standard output.\<close>

definition Git_git :: "host \<Rightarrow> Git \<Rightarrow> string list \<Rightarrow> event list \<times> (error + string)" where
  "Git_git h g args =
     (let argv = [''git'', ''-C'', repo_dir_str g] @ args in ([Cmd argv], cmd h argv))"

definition Git_describe :: "host \<Rightarrow> Git \<Rightarrow> event list \<times> (error + string)" where
  "Git_describe h g =
     Git_git h g [''describe'', ''--dirty'', ''--tags'', ''--long'', ''--match'', ''*[0-9]*'']"

text \<open>The three accessors: a run of the tool when there is a root, \<open>None\<close> otherwise.\<close>

definition opt_out :: "event list \<times> (error + string) \<Rightarrow> event list \<times> (error + string option)" where
  "opt_out r = (fst r, case snd r of Inl e \<Rightarrow> Inl e | Inr s \<Rightarrow> Inr (Some s))"

definition Git_revision :: "host \<Rightarrow> Git \<Rightarrow> event list \<times> (error + string option)" where
  "Git_revision h g =
     (if repo_dir g \<noteq> None then opt_out (Git_git h g [''rev-parse'', ''HEAD''])
      else ([], Inr None))"

definition Git_url :: "host \<Rightarrow> Git \<Rightarrow> event list \<times> (error + string option)" where
  "Git_url h g =
     (if repo_dir g \<noteq> None then opt_out (Git_git h g [''remote'', ''get-url'', ''origin''])
      else ([], Inr None))"

definition Git_branch :: "host \<Rightarrow> Git \<Rightarrow> event list \<times> (error + string option)" where
  "Git_branch h g =
     (if repo_dir g \<noteq> None then opt_out (Git_git h g [''rev-parse'', ''--abbrev-ref'', ''HEAD''])
      else ([], Inr None))"

subsection \<open>The version string\<close>

definition version_str :: "version \<Rightarrow> string" where
  "version_str v = (case v of VSemver s \<Rightarrow> Semver_str s | VStr t \<Rightarrow> t)"

text \<open>\<open>meta.version.next if isinstance(meta.version, Semver) else meta.version\<close>.\<close>

definition next_version :: "version \<Rightarrow> version" where
  "next_version v = (case v of VSemver s \<Rightarrow> VSemver (Semver_next s) | VStr t \<Rightarrow> VStr t)"

text \<open>
  The three branches at the end of \<open>Git.version\<close>; \<open>today\<close> is what \<open>date()\<close> returns.
  \<open>elif meta.distance\<close> is taken by every distance other than zero.
\<close>

definition format_version :: "string \<Rightarrow> GitMeta \<Rightarrow> string" where
  "format_version today meta =
     (if dirty meta
      then version_str (next_version (version meta)) @ ''-dev'' @ str_int (distance meta) @
           ''.g'' @ commit meta @ ''.d'' @ today
      else if distance meta \<noteq> 0
      then version_str (next_version (version meta)) @ ''-dev'' @ str_int (distance meta) @
           ''.g'' @ commit meta
      else version_str (version meta))"

text \<open>\<open>Git.version\<close>.\<close>

definition Git_version :: "host \<Rightarrow> Git \<Rightarrow> event list \<times> (error + string option)" where
  "Git_version h g =
     (if repo_dir g = None then ([], Inr None)
      else case Git_describe h g of
             (evs, Inl e) \<Rightarrow> (evs, Inl e)
           | (evs, Inr out) \<Rightarrow>
               (case parse_describe (semver_parse h) out of
                  Inl e \<Rightarrow> (evs, Inl e)
                | Inr meta \<Rightarrow> (evs, Inr (Some (format_version (date h) meta)))))"

text \<open>\<open>new_client\<close> and \<open>get_version\<close>.\<close>

definition new_client :: "host \<Rightarrow> path \<Rightarrow> event list \<times> Git option" where
  "new_client h root =
     (if \<not> has_cmd h ''git'' then ([HasCmd ''git''], None)
      else case Git_init h root of (evs, g) \<Rightarrow> (HasCmd ''git'' # evs, Some g))"

definition get_version :: "host \<Rightarrow> path \<Rightarrow> event list \<times> (error + string option)" where
  "get_version h root =
     (case new_client h root of
        (evs, None) \<Rightarrow> (evs, Inr None)
      | (evs, Some g) \<Rightarrow> after evs (Git_version h g))"

subsection \<open>Vocabulary of the statements\<close>

text \<open>The part of a tag after its last hyphen; the whole tag when it has none.\<close>

definition last_segment :: "string \<Rightarrow> string" where
  "last_segment t = rev (takeWhile (\<lambda>c. c \<noteq> CHR ''-'') (rev t))"


text \<open>The value of a run of digits, read from the left: one step of it.\<close>

definition digit_step :: "nat \<Rightarrow> char \<Rightarrow> nat" where
  "digit_step a c = a * 10 + (case digit_of c of Some v \<Rightarrow> v | None \<Rightarrow> 0)"

text \<open>What is left of a descriptor for the split: the text without its \<open>-dirty\<close> suffix.\<close>

definition descriptor_body :: "string \<Rightarrow> string" where
  "descriptor_body d = (if endswith d ''-dirty'' then drop_last 6 d else d)"

text \<open>
  The text \<open>git describe --long --dirty\<close> prints: \<open>tag-distance-gcommit\<close>, followed by
  \<open>-dirty\<close> when the working tree has changes.
\<close>

definition describe_text :: "string \<Rightarrow> nat \<Rightarrow> string \<Rightarrow> bool \<Rightarrow> string" where
  "describe_text tag n c is_dirty =
     tag @ ''-'' @ str_nat n @ ''-g'' @ c @ (if is_dirty then ''-dirty'' else [])"

text \<open>
  The version \<open>_parse_describe\<close> makes of a tag text: \<open>Semver.parse(raw_tag) or
  raw_tag.lstrip("v")\<close>.
\<close>

definition version_of_tag :: "(string \<Rightarrow> Semver option) \<Rightarrow> string \<Rightarrow> version" where
  "version_of_tag parse raw_tag =
     (case parse raw_tag of Some v \<Rightarrow> VSemver v | None \<Rightarrow> VStr (lstrip CHR ''v'' raw_tag))"

text \<open>
  A host for concrete runs: git is installed, \<open>/repo/.git\<close> is the only directory there
  is, every run of the tool prints \<open>out\<close>, and the day is the first of January 2025.
\<close>

definition repo_path :: path where
  "repo_path = \<lparr>anchor = ''/'', parts = [''repo'']\<rparr>"

definition example_host :: "string \<Rightarrow> bool \<Rightarrow> host" where
  "example_host out search_off =
     \<lparr>has_cmd = (\<lambda>c. True), is_env_disabled = (\<lambda>v. search_off),
      is_dir = (\<lambda>p. p = joinpath repo_path ''.git''),
      cmd = (\<lambda>argv. Inr out), date = ''20250101'', semver_parse = Semver_parse\<rparr>"

text \<open>The events that look at a directory, and those that run the tool.\<close>

fun is_probe :: "event \<Rightarrow> bool" where
  "is_probe (IsDir p) = True"
| "is_probe e = False"

fun is_cmd :: "event \<Rightarrow> bool" where
  "is_cmd (Cmd argv) = True"
| "is_cmd e = False"

text \<open>A directory \<open>n\<close> levels below \<open>/repo\<close>.\<close>

definition below_repo :: "nat \<Rightarrow> path" where
  "below_repo n = \<lparr>anchor = ''/'', parts = ''repo'' # replicate n ''d''\<rparr>"

section \<open>Properties\<close>

subsection \<open>Splitting\<close>

lemma split_max_no_sep: "sep \<notin> set s \<Longrightarrow> split_max sep k s = [s]"
  by (cases k) simp_all

lemma split_max_cut:
  assumes "sep \<notin> set a"
  shows "split_max sep (Suc k) (a @ sep # r) = a # split_max sep k r"
proof -
  have tw: "takeWhile (\<lambda>c. c \<noteq> sep) (a @ sep # r) = a"
    using assms by (induction a) auto
  have dw: "dropWhile (\<lambda>c. c \<noteq> sep) (a @ sep # r) = sep # r"
    using assms by (induction a) auto
  show ?thesis by (simp add: tw dw)
qed

lemma rsplit_zero: "rsplit sep 0 s = [s]"
  by (simp add: rsplit_def)

lemma rsplit_no_sep: "sep \<notin> set s \<Longrightarrow> rsplit sep k s = [s]"
  by (simp add: rsplit_def split_max_no_sep)

lemma rsplit_cut:
  assumes "sep \<notin> set c"
  shows "rsplit sep (Suc k) (r @ sep # c) = rsplit sep k r @ [c]"
proof -
  have "rev (r @ sep # c) = rev c @ sep # rev r" by simp
  moreover have "sep \<notin> set (rev c)" using assms by simp
  ultimately have "split_max sep (Suc k) (rev (r @ sep # c)) = rev c # split_max sep k (rev r)"
    using split_max_cut by metis
  then show ?thesis by (simp add: rsplit_def)
qed

lemma rsplit_ne: "rsplit sep k s \<noteq> []"
  by (cases k) (simp_all add: rsplit_def)

lemma last_rsplit_1: "last (rsplit CHR ''-'' (Suc 0) t) = last_segment t"
proof (cases "CHR ''-'' \<in> set t")
  case True
  then show ?thesis by (simp add: rsplit_def last_segment_def)
next
  case False
  then have tw: "takeWhile (\<lambda>c. c \<noteq> CHR ''-'') (rev t) = rev t"
    by (auto simp: takeWhile_eq_all_conv)
  show ?thesis unfolding last_segment_def tw using False by (simp add: rsplit_def)
qed

lemma rsplit_two_fields:
  assumes "CHR ''-'' \<notin> set n" "CHR ''-'' \<notin> set c"
  shows "rsplit CHR ''-'' 2 (t @ ''-'' @ n @ ''-'' @ c) = [t, n, c]"
proof -
  have "rsplit CHR ''-'' (Suc (Suc 0)) ((t @ CHR ''-'' # n) @ CHR ''-'' # c)
          = rsplit CHR ''-'' (Suc 0) (t @ CHR ''-'' # n) @ [c]"
    using assms(2) by (rule rsplit_cut)
  also have "rsplit CHR ''-'' (Suc 0) (t @ CHR ''-'' # n) = rsplit CHR ''-'' 0 t @ [n]"
    using assms(1) by (rule rsplit_cut)
  finally show ?thesis by (simp add: rsplit_zero numeral_2_eq_2)
qed

lemma rsplit_three_fields:
  assumes "CHR ''-'' \<notin> set n" "CHR ''-'' \<notin> set c"
  shows "last_n 3 (rsplit CHR ''-'' 3 (t @ ''-'' @ n @ ''-'' @ c)) = [last_segment t, n, c]"
proof -
  have "rsplit CHR ''-'' (Suc (Suc (Suc 0))) ((t @ CHR ''-'' # n) @ CHR ''-'' # c)
          = rsplit CHR ''-'' (Suc (Suc 0)) (t @ CHR ''-'' # n) @ [c]"
    using assms(2) by (rule rsplit_cut)
  also have "rsplit CHR ''-'' (Suc (Suc 0)) (t @ CHR ''-'' # n) = rsplit CHR ''-'' (Suc 0) t @ [n]"
    using assms(1) by (rule rsplit_cut)
  finally have eq: "rsplit CHR ''-'' 3 (t @ ''-'' @ n @ ''-'' @ c) = rsplit CHR ''-'' (Suc 0) t @ [n, c]"
    by (simp add: numeral_3_eq_3)
  obtain xs x where xs: "rsplit CHR ''-'' (Suc 0) t = xs @ [x]"
    using rsplit_ne by (metis rev_exhaust)
  then have "x = last_segment t" using last_rsplit_1 [of t] by simp
  with xs eq show ?thesis by (simp add: last_n_def)
qed



lemma split_max_butlast_no_sep:
  "x \<in> set (butlast (split_max sep k s)) \<Longrightarrow> sep \<notin> set x"
proof (induction k arbitrary: s)
  case 0
  then show ?case by simp
next
  case (Suc k)
  show ?case
  proof (cases "sep \<in> set s")
    case True
    then obtain a r where s: "s = a @ sep # r" and a: "sep \<notin> set a"
      by (meson split_list_first)
    have eq: "split_max sep (Suc k) s = a # split_max sep k r"
      unfolding s using a by (rule split_max_cut)
    have "split_max sep k r \<noteq> []" by (cases k) simp_all
    with Suc.prems eq have "x = a \<or> x \<in> set (butlast (split_max sep k r))" by auto
    then show ?thesis using a Suc.IH by blast
  next
    case False
    with Suc.prems show ?thesis by simp
  qed
qed

lemma rsplit_tl_no_sep: "x \<in> set (tl (rsplit sep k s)) \<Longrightarrow> sep \<notin> set x"
proof -
  assume "x \<in> set (tl (rsplit sep k s))"
  moreover have "tl (rev ys) = rev (butlast ys)" for ys :: "string list"
    by (induction ys rule: rev_induct) auto
  ultimately have "x \<in> set (map rev (butlast (split_max sep k (rev s))))"
    by (simp add: rsplit_def map_butlast)
  then obtain y where "y \<in> set (butlast (split_max sep k (rev s)))" "x = rev y" by auto
  then show ?thesis using split_max_butlast_no_sep by fastforce
qed

subsection \<open>Reading and printing integers\<close>

lemma digit_of_digit_char: "d < 10 \<Longrightarrow> digit_of (digit_char d) = Some d"
proof -
  assume "d < 10"
  then consider "d = 0" | "d = 1" | "d = 2" | "d = 3" | "d = 4" | "d = 5" | "d = 6"
    | "d = 7" | "d = 8" | "d = 9" by atomize_elim presburger
  then show ?thesis by cases (simp_all add: digit_of_def digit_char_def)
qed

lemma digit_step_Some: "digit_of c = Some v \<Longrightarrow> digit_step a c = a * 10 + v"
  by (simp add: digit_step_def)

lemma digit_not_special:
  assumes "digit_of c \<noteq> None"
  shows "\<not> is_space c" "c \<noteq> CHR ''_''" "c \<noteq> CHR ''-''" "c \<noteq> CHR ''+''"
  using assms by (auto simp: digit_of_def is_space_def split: if_splits)

lemma digits_val_all:
  "list_all (\<lambda>c. digit_of c \<noteq> None) s \<Longrightarrow> digits_val acc s = Some (foldl digit_step acc s)"
proof (induction acc s rule: digits_val.induct)
  case (1 acc)
  then show ?case by simp
next
  case (2 acc c)
  then show ?case by (auto simp: digit_step_Some)
next
  case (3 acc c d ds)
  then have c: "c \<noteq> CHR ''_''" and dc: "digit_of c \<noteq> None" 
    using digit_not_special(2) by auto
  then obtain v where v: "digit_of c = Some v" by auto
  from 3 have "digits_val (acc * 10 + v) (d # ds) = Some (foldl digit_step (acc * 10 + v) (d # ds))"
    using c v by simp
  then show ?case using c v by (simp add: digit_step_Some)
qed

lemma py_digits_all:
  assumes "all_digits s"
  shows "py_digits s = Some (foldl digit_step 0 s)"
proof (cases s)
  case Nil
  with assms show ?thesis by (simp add: all_digits_def)
next
  case (Cons c cs)
  with assms obtain v where v: "digit_of c = Some v" and cs: "list_all (\<lambda>c. digit_of c \<noteq> None) cs"
    by (auto simp: all_digits_def)
  show ?thesis using digits_val_all [OF cs, of v] v Cons
    by (simp add: py_digits_def digit_step_Some)
qed

lemma str_nat_digits: "all_digits (str_nat n) \<and> foldl digit_step 0 (str_nat n) = n"
proof (induction n rule: str_nat.induct)
  case (1 n)
  show ?case
  proof (cases "n < 10")
    case True
    then show ?thesis
      by (simp add: str_nat.simps [of n] all_digits_def digit_of_digit_char digit_step_Some)
  next
    case False
    have m: "n mod 10 < 10" by simp
    from False 1 have ih: "all_digits (str_nat (n div 10))"
      "foldl digit_step 0 (str_nat (n div 10)) = n div 10" by simp_all
    show ?thesis using False ih digit_of_digit_char [OF m]
      by (simp add: str_nat.simps [of n] all_digits_def digit_step_Some)
  qed
qed

lemma strip_no_space:
  assumes "\<And>c. c \<in> set s \<Longrightarrow> \<not> is_space c"
  shows "strip s = s"
proof -
  have dw: "dropWhile is_space xs = xs" if "\<And>c. c \<in> set xs \<Longrightarrow> \<not> is_space c" for xs
    using that by (cases xs) auto
  have "dropWhile is_space s = s" using assms by (rule dw)
  moreover have "dropWhile is_space (rev s) = rev s" using assms by (intro dw) simp
  ultimately show ?thesis by (simp add: strip_def)
qed

lemma py_int_all_digits:
  assumes "all_digits s"
  shows "py_int s = Inr (int (foldl digit_step 0 s))"
proof -
  have ds: "\<And>c. c \<in> set s \<Longrightarrow> digit_of c \<noteq> None"
    using assms by (simp add: all_digits_def list_all_iff)
  have st: "strip s = s" using ds digit_not_special(1) by (intro strip_no_space) blast
  have ne: "s \<noteq> []" using assms by (simp add: all_digits_def)
  then have "hd s \<in> set s" by simp
  then have hd: "hd s \<noteq> CHR ''-''" "hd s \<noteq> CHR ''+''"
    using ds digit_not_special by blast+
  show ?thesis using py_digits_all [OF assms] hd by (simp add: py_int_def st)
qed

lemma py_int_str_nat: "py_int (str_nat n) = Inr (int n)"
  using py_int_all_digits [of "str_nat n"] str_nat_digits [of n] by simp



lemma set_strip: "set (strip s) \<subseteq> set s"
proof -
  have "set (dropWhile P xs) \<subseteq> set xs" for P and xs :: string
    by (simp add: set_dropWhileD subsetI)
  from this [of is_space "rev (dropWhile is_space s)"] this [of is_space s]
  show ?thesis by (auto simp: strip_def)
qed





lemma py_int_nonneg:
  assumes "CHR ''-'' \<notin> set s" "py_int s = Inr k"
  shows "0 \<le> k"
proof -
  have "\<not> (strip s \<noteq> [] \<and> hd (strip s) = CHR ''-'')"
    using assms(1) set_strip [of s] by (metis hd_in_set subsetD)
  then show ?thesis using assms(2)
    by (auto simp: py_int_def Let_def split: option.splits)
qed

subsection \<open>The descriptor parser\<close>

lemma endswith_dirty_iff: "endswith s ''-dirty'' \<longleftrightarrow> take 6 (rev s) = ''ytrid-''"
  by (simp add: endswith_def eval_nat_numeral)

lemma endswith_dirty: "endswith (b @ ''-dirty'') ''-dirty''"
  by (simp add: endswith_dirty_iff)

lemma drop_last_dirty: "drop_last 6 (b @ ''-dirty'') = b"
  by (simp add: drop_last_def)

lemma takeWhile_first: "x \<notin> set a \<Longrightarrow> takeWhile (\<lambda>c. c \<noteq> x) (a @ x # r) = a"
  by (induction a) auto

lemma parse_describe_fields:
  assumes body: "descriptor_body d = t @ ''-'' @ n @ ''-'' @ c"
    and n: "CHR ''-'' \<notin> set n" and c: "CHR ''-'' \<notin> set c"
  shows "parse_describe p d =
           (case py_int n of
              Inl e \<Rightarrow> Inl e
            | Inr k \<Rightarrow> Inr \<lparr>dirty = endswith d ''-dirty'', distance = k, commit = drop 1 c,
                        version = version_of_tag p
                          (if endswith d ''-dirty'' then last_segment t else t)\<rparr>)"
proof (cases "endswith d ''-dirty''")
  case True
  then have b: "drop_last 6 d = t @ ''-'' @ n @ ''-'' @ c"
    using body by (simp add: descriptor_body_def)
  have "last_n 3 (rsplit CHR ''-'' 3 (drop_last 6 d)) = [last_segment t, n, c]"
    unfolding b using n c by (rule rsplit_three_fields)
  then show ?thesis using True
    by (simp add: parse_describe_def version_of_tag_def split: sum.splits)
next
  case False
  then have b: "d = t @ ''-'' @ n @ ''-'' @ c"
    using body by (simp add: descriptor_body_def)
  have "rsplit CHR ''-'' 2 d = [t, n, c]"
    unfolding b using n c by (rule rsplit_two_fields)
  then have "last_n 3 (rsplit CHR ''-'' 2 d) = [t, n, c]" by (simp add: last_n_def)
  then show ?thesis using False
    by (simp add: parse_describe_def version_of_tag_def split: sum.splits)
qed


lemma take6_not_dirty:
  assumes u: "CHR ''-'' \<notin> set u" and l: "u \<noteq> ''ytrid''"
  shows "take 6 (u @ CHR ''-'' # r) \<noteq> ''ytrid'' @ CHR ''-'' # []"
proof
  assume eq: "take 6 (u @ CHR ''-'' # r) = ''ytrid'' @ CHR ''-'' # []"
  show False
  proof (cases "length u < 6")
    case True
    then have "take 6 (u @ CHR ''-'' # r) = u @ CHR ''-'' # take (5 - length u) r"
      by (simp add: take_Cons')
    with eq have eq': "u @ CHR ''-'' # take (5 - length u) r = ''ytrid'' @ CHR ''-'' # []"
      by (simp only:)
    have v: "CHR ''-'' \<notin> set ''ytrid''" by simp
    have "takeWhile (\<lambda>x. x \<noteq> CHR ''-'') (u @ CHR ''-'' # take (5 - length u) r)
          = takeWhile (\<lambda>x. x \<noteq> CHR ''-'') (''ytrid'' @ CHR ''-'' # [])"
      by (simp only: eq')
    then have "u = ''ytrid''"
      by (simp only: takeWhile_first [OF u] takeWhile_first [OF v])
    then show False using l by simp
  next
    case False
    then have "take 6 (u @ CHR ''-'' # r) = take 6 u" by simp
    with eq have t: "take 6 u = ''ytrid'' @ CHR ''-'' # []" by (simp only:)
    have "CHR ''-'' \<in> set (take 6 u)" unfolding t by simp
    then show False using u by (meson in_set_takeD)
  qed
qed

lemma not_dirty_clean_text:
  assumes "CHR ''-'' \<notin> set c"
  shows "\<not> endswith (b @ ''-g'' @ c) ''-dirty''"
proof -
  have u: "CHR ''-'' \<notin> set (rev c @ ''g'')" using assms by simp
  have "last (rev c @ ''g'') \<noteq> last ''ytrid''" by simp
  then have l: "rev c @ ''g'' \<noteq> ''ytrid''" by metis
  have "take 6 ((rev c @ ''g'') @ CHR ''-'' # rev b) \<noteq> ''ytrid'' @ CHR ''-'' # []"
    using u l by (rule take6_not_dirty)
  then show ?thesis by (simp add: endswith_dirty_iff)
qed

lemma parse_describe_text:
  assumes c: "CHR ''-'' \<notin> set c"
  shows "parse_describe p (describe_text tag n c dy) =
           Inr \<lparr>dirty = dy, distance = int n, commit = c,
                version = version_of_tag p (if dy then last_segment tag else tag)\<rparr>"
proof -
  let ?d = "describe_text tag n c dy"
  have dy: "endswith ?d ''-dirty'' = dy"
  proof (cases dy)
    case True
    have "endswith ((tag @ ''-'' @ str_nat n @ ''-g'' @ c) @ ''-dirty'') ''-dirty''"
      by (rule endswith_dirty)
    with True show ?thesis by (simp add: describe_text_def)
  next
    case False
    have "\<not> endswith ((tag @ ''-'' @ str_nat n) @ ''-g'' @ c) ''-dirty''"
      using c by (rule not_dirty_clean_text)
    with False show ?thesis by (simp add: describe_text_def)
  qed
  have body: "descriptor_body ?d = tag @ ''-'' @ str_nat n @ ''-'' @ (CHR ''g'' # c)"
  proof (cases dy)
    case True
    have "drop_last 6 ((tag @ ''-'' @ str_nat n @ ''-g'' @ c) @ ''-dirty'')
            = tag @ ''-'' @ str_nat n @ ''-g'' @ c"
      by (rule drop_last_dirty)
    then show ?thesis using True dy by (simp add: descriptor_body_def describe_text_def)
  next
    case False
    then show ?thesis using dy by (simp add: descriptor_body_def describe_text_def)
  qed
  have n: "CHR ''-'' \<notin> set (str_nat n)"
  proof
    assume "CHR ''-'' \<in> set (str_nat n)"
    moreover have "\<forall>x\<in>set (str_nat n). digit_of x \<noteq> None"
      using str_nat_digits [of n] by (simp add: all_digits_def list_all_iff)
    ultimately have "digit_of CHR ''-'' \<noteq> None" by blast
    then show False by (simp add: digit_of_def)
  qed
  have gc: "CHR ''-'' \<notin> set (CHR ''g'' # c)" using c by simp
  show ?thesis
    using parse_describe_fields [OF body n gc, of p] by (simp add: py_int_str_nat dy)
qed

lemma parse_describe_nonneg:
  assumes "parse_describe p d = Inr m"
  shows "0 \<le> distance m"
proof -
  let ?xs = "rsplit CHR ''-'' (if endswith d ''-dirty'' then 3 else 2)
               (if endswith d ''-dirty'' then drop_last 6 d else d)"
  from assms obtain a b c where abc: "last_n 3 ?xs = [a, b, c]" and b: "py_int b = Inr (distance m)"
    by (auto simp: parse_describe_def Let_def split: list.splits sum.splits)
  have "take (length ?xs - 3) ?xs @ drop (length ?xs - 3) ?xs = ?xs"
    by (rule append_take_drop_id)
  then obtain ys where ys: "?xs = ys @ [a, b, c]"
    using abc unfolding last_n_def by metis
  have "b \<in> set (tl (ys @ [a, b, c]))" by (cases ys) simp_all
  then have "b \<in> set (tl ?xs)" using ys by simp
  then have "CHR ''-'' \<notin> set b" by (rule rsplit_tl_no_sep)
  then show ?thesis using b by (rule py_int_nonneg)
qed

subsection \<open>The version rule\<close>

lemma Git_version_found:
  assumes "repo_dir g \<noteq> None" "snd (Git_describe h g) = Inr out"
    "parse_describe (semver_parse h) out = Inr m"
  shows "snd (Git_version h g) = Inr (Some (format_version (date h) m))"
  using assms by (cases "Git_describe h g") (simp add: Git_version_def)

text \<open>
  C1. Once a descriptor has been parsed, the version is one of three texts. A dirty tree
  gives \<open>{next}-dev{distance}.g{commit}.d{date}\<close> with the date of the day, whatever the
  distance; a clean tree at a positive distance gives \<open>{next}-dev{distance}.g{commit}\<close>;
  a clean tree at distance zero gives the text of the tag's version, not bumped and with
  no suffix, be it a semantic version or a plain string. A parsed distance is never
  negative, so these are all the cases.
\<close>

theorem version_three_way_rule:
  assumes "repo_dir g \<noteq> None"
    and "snd (Git_describe h g) = Inr out"
    and "parse_describe (semver_parse h) out = Inr m"
  shows "0 \<le> distance m \<and>
         snd (Git_version h g) = Inr (Some
           (if dirty m
            then version_str (next_version (version m)) @ ''-dev'' @ str_int (distance m) @
                 ''.g'' @ commit m @ ''.d'' @ date h
            else if 0 < distance m
            then version_str (next_version (version m)) @ ''-dev'' @ str_int (distance m) @
                 ''.g'' @ commit m
            else version_str (version m)))"
proof -
  have nn: "0 \<le> distance m" using assms(3) by (rule parse_describe_nonneg)
  then have "(distance m \<noteq> 0) = (0 < distance m)" by auto
  then show ?thesis
    using nn Git_version_found [OF assms] by (simp add: format_version_def)
qed

theorem version_three_way_rule_witness:
  "repo_dir \<lparr>repo_dir = Some repo_path\<rparr> \<noteq> None \<and>
   snd (Git_describe (example_host ''1.2.3-5-gabc123-dirty'' False) \<lparr>repo_dir = Some repo_path\<rparr>)
     = Inr ''1.2.3-5-gabc123-dirty'' \<and>
   parse_describe (semver_parse (example_host ''1.2.3-5-gabc123-dirty'' False))
     ''1.2.3-5-gabc123-dirty''
     = Inr \<lparr>dirty = True, distance = 5, commit = ''abc123'',
            version = VSemver \<lparr>major = 1, minor = 2, patch = 3, prerelease = None\<rparr>\<rparr> \<and>
   snd (Git_version (example_host ''1.2.3-5-gabc123-dirty'' False) \<lparr>repo_dir = Some repo_path\<rparr>)
     = Inr (Some ''1.2.4-dev5.gabc123.d20250101'')"
proof -
  let ?h = "example_host ''1.2.3-5-gabc123-dirty'' False"
  let ?g = "\<lparr>repo_dir = Some repo_path\<rparr>"
  let ?m = "\<lparr>dirty = True, distance = 5, commit = ''abc123'',
            version = VSemver \<lparr>major = 1, minor = 2, patch = 3, prerelease = None\<rparr>\<rparr>"
  have a: "repo_dir ?g \<noteq> None" by simp
  have b: "snd (Git_describe ?h ?g) = Inr ''1.2.3-5-gabc123-dirty''" by code_simp
  have c: "parse_describe (semver_parse ?h) ''1.2.3-5-gabc123-dirty'' = Inr ?m" by code_simp
  have d: "version_str (next_version (version ?m)) @ ''-dev'' @ str_int (distance ?m) @
                 ''.g'' @ commit ?m @ ''.d'' @ date ?h = ''1.2.4-dev5.gabc123.d20250101''"
    by code_simp
  have "snd (Git_version ?h ?g) = Inr (Some ''1.2.4-dev5.gabc123.d20250101'')"
    using version_three_way_rule [OF a b c] d by simp
  with a b c show ?thesis by blast
qed

text \<open>The three rows of the rule on the tag \<open>1.2.3\<close> and the commit \<open>abc123\<close>.\<close>

lemma version_examples:
  "snd (Git_version (example_host ''1.2.3-0-gabc123'' False) \<lparr>repo_dir = Some repo_path\<rparr>)
     = Inr (Some ''1.2.3'')"
  "snd (Git_version (example_host ''1.2.3-5-gabc123'' False) \<lparr>repo_dir = Some repo_path\<rparr>)
     = Inr (Some ''1.2.4-dev5.gabc123'')"
  "snd (Git_version (example_host ''1.2.3-0-gabc123-dirty'' False) \<lparr>repo_dir = Some repo_path\<rparr>)
     = Inr (Some ''1.2.4-dev0.gabc123.d20250101'')"
  "snd (Git_version (example_host ''release-foo-0-gabc123'' False) \<lparr>repo_dir = Some repo_path\<rparr>)
     = Inr (Some ''release-foo'')"
  "snd (Git_version (example_host ''release-foo-5-gabc123'' False) \<lparr>repo_dir = Some repo_path\<rparr>)
     = Inr (Some ''release-foo-dev5.gabc123'')"
  by code_simp+

text \<open>
  C2. On the descriptor \<open>rel1-foo-5-gabc123-dirty\<close>, whose tag is \<open>rel1-foo\<close>, the distance
  and the commit come back as written, but the tag handed to \<open>Semver.parse\<close> and kept as
  the version is \<open>foo\<close>: with the \<open>-dirty\<close> suffix already cut, the split at three hyphens
  cuts the tag as well. The same descriptor without the suffix keeps \<open>rel1-foo\<close>.
\<close>

theorem parse_describe_dirty_hyphen_tag:
  "parse_describe p ''rel1-foo-5-gabc123-dirty'' =
     Inr \<lparr>dirty = True, distance = 5, commit = ''abc123'',
          version = (case p ''foo'' of Some v \<Rightarrow> VSemver v | None \<Rightarrow> VStr ''foo'')\<rparr> \<and>
   parse_describe p ''rel1-foo-5-gabc123'' =
     Inr \<lparr>dirty = False, distance = 5, commit = ''abc123'',
          version = (case p ''rel1-foo'' of Some v \<Rightarrow> VSemver v | None \<Rightarrow> VStr ''rel1-foo'')\<rparr>"
proof -
  have c: "CHR ''-'' \<notin> set ''abc123''" by simp
  have n: "str_nat 5 = ''5''" by code_simp
  have l: "last_segment ''rel1-foo'' = ''foo''" by code_simp
  have d: "describe_text ''rel1-foo'' 5 ''abc123'' True = ''rel1-foo-5-gabc123-dirty''"
    "describe_text ''rel1-foo'' 5 ''abc123'' False = ''rel1-foo-5-gabc123''"
    by (simp_all add: describe_text_def n)
  have s: "lstrip CHR ''v'' ''foo'' = ''foo''" "lstrip CHR ''v'' ''rel1-foo'' = ''rel1-foo''"
    by (simp_all add: lstrip_def)
  show ?thesis
    using parse_describe_text [OF c, of p "''rel1-foo''" 5 True]
      parse_describe_text [OF c, of p "''rel1-foo''" 5 False]
    by (simp add: d l s version_of_tag_def split: option.split)
qed

subsection \<open>Malformed descriptors, the next version, the fallback version\<close>




text \<open>
  C4. In the two branches that print \<open>{next}\<close>, it is the text of the version with the
  patch number one higher and the pre-release label gone when the version is a semantic
  version, and the fallback string as it is when the version is a string, at every
  distance. \<open>next_version\<close> is a function of the version: the record keeps the version
  it had.
\<close>

theorem next_is_patch_bump_or_raw_tag:
  "next_version (VSemver s) =
     VSemver \<lparr>major = major s, minor = minor s, patch = patch s + 1, prerelease = None\<rparr> \<and>
   next_version (VStr t) = VStr t \<and>
   (dirty m \<or> distance m \<noteq> 0 \<longrightarrow>
      format_version today m =
        (case version m of
           VSemver s \<Rightarrow> Semver_str \<lparr>major = major s, minor = minor s, patch = patch s + 1,
                                    prerelease = None\<rparr>
         | VStr t \<Rightarrow> t) @
        ''-dev'' @ str_int (distance m) @ ''.g'' @ commit m @
        (if dirty m then ''.d'' @ today else []))"
  by (cases "version m")
     (auto simp: next_version_def Semver_next_def format_version_def version_str_def)

theorem next_is_patch_bump_or_raw_tag_witness:
  "distance \<lparr>dirty = False, distance = 5, commit = ''abc123'',
             version = VSemver \<lparr>major = 1, minor = 2, patch = 3, prerelease = Some ''rc1''\<rparr>\<rparr> \<noteq> 0 \<and>
   format_version ''20250101''
     \<lparr>dirty = False, distance = 5, commit = ''abc123'',
      version = VSemver \<lparr>major = 1, minor = 2, patch = 3, prerelease = Some ''rc1''\<rparr>\<rparr>
     = ''1.2.4-dev5.gabc123'' \<and>
   format_version ''20250101''
     \<lparr>dirty = True, distance = 0, commit = ''abc123'', version = VStr ''release-foo''\<rparr>
     = ''release-foo-dev0.gabc123.d20250101''"
proof -
  let ?m = "\<lparr>dirty = False, distance = 5, commit = ''abc123'',
             version = VSemver \<lparr>major = 1, minor = 2, patch = 3, prerelease = Some ''rc1''\<rparr>\<rparr>"
  let ?r = "\<lparr>dirty = True, distance = 0, commit = ''abc123'', version = VStr ''release-foo''\<rparr>"
  have a: "distance ?m \<noteq> 0" by simp
  have s: "Semver_str \<lparr>major = 1, minor = 2, patch = 3 + 1, prerelease = None\<rparr> = ''1.2.4''"
    "str_int 5 = ''5''" "str_int 0 = ''0''"
    by code_simp+
  have 1: "format_version ''20250101'' ?m = ''1.2.4-dev5.gabc123''"
    using next_is_patch_bump_or_raw_tag [of _ _ ?m "''20250101''"] s by simp
  have 2: "format_version ''20250101'' ?r = ''release-foo-dev0.gabc123.d20250101''"
    using next_is_patch_bump_or_raw_tag [of _ _ ?r "''20250101''"] s by simp
  from a 1 2 show ?thesis by blast
qed




subsection \<open>The search for the repository root\<close>

lemma find_repo_dir_at_bound:
  "MAX_GIT_SEARCH_DEPTH \<le> level \<Longrightarrow> find_repo_dir h start level = ([], None)"
  by (simp add: find_repo_dir.simps)

lemma find_repo_dir_marker:
  "level < MAX_GIT_SEARCH_DEPTH \<Longrightarrow> is_dir h (joinpath start ''.git'') \<Longrightarrow>
   find_repo_dir h start level = ([IsDir (joinpath start ''.git'')], Some start)"
  by (simp add: find_repo_dir.simps)

lemma find_repo_dir_disabled:
  "level < MAX_GIT_SEARCH_DEPTH \<Longrightarrow> \<not> is_dir h (joinpath start ''.git'') \<Longrightarrow>
   is_env_disabled h ''AUTOBUILD_SCM_SEARCH'' \<Longrightarrow>
   find_repo_dir h start level =
     ([IsDir (joinpath start ''.git''), EnvDisabled ''AUTOBUILD_SCM_SEARCH''], None)"
  by (simp add: find_repo_dir.simps)

lemma find_repo_dir_root:
  "level < MAX_GIT_SEARCH_DEPTH \<Longrightarrow> \<not> is_dir h (joinpath start ''.git'') \<Longrightarrow>
   parent start = start \<Longrightarrow>
   find_repo_dir h start level =
     ([IsDir (joinpath start ''.git''), EnvDisabled ''AUTOBUILD_SCM_SEARCH''], None)"
  by (simp add: find_repo_dir.simps)

lemma find_repo_dir_up:
  "level < MAX_GIT_SEARCH_DEPTH \<Longrightarrow> \<not> is_dir h (joinpath start ''.git'') \<Longrightarrow>
   \<not> is_env_disabled h ''AUTOBUILD_SCM_SEARCH'' \<Longrightarrow> parent start \<noteq> start \<Longrightarrow>
   find_repo_dir h start level =
     after [IsDir (joinpath start ''.git''), EnvDisabled ''AUTOBUILD_SCM_SEARCH'']
       (find_repo_dir h (parent start) (level + 1))"
  by (subst find_repo_dir.simps) simp

lemma find_repo_dir_cases:
  obtains (bound) "MAX_GIT_SEARCH_DEPTH \<le> level"
      "find_repo_dir h start level = ([], None)"
  | (marker) "level < MAX_GIT_SEARCH_DEPTH" "is_dir h (joinpath start ''.git'')"
      "find_repo_dir h start level = ([IsDir (joinpath start ''.git'')], Some start)"
  | (stop) "level < MAX_GIT_SEARCH_DEPTH" "\<not> is_dir h (joinpath start ''.git'')"
      "is_env_disabled h ''AUTOBUILD_SCM_SEARCH'' \<or> parent start = start"
      "find_repo_dir h start level =
         ([IsDir (joinpath start ''.git''), EnvDisabled ''AUTOBUILD_SCM_SEARCH''], None)"
  | (up) "level < MAX_GIT_SEARCH_DEPTH" "\<not> is_dir h (joinpath start ''.git'')"
      "\<not> is_env_disabled h ''AUTOBUILD_SCM_SEARCH''" "parent start \<noteq> start"
      "find_repo_dir h start level =
         after [IsDir (joinpath start ''.git''), EnvDisabled ''AUTOBUILD_SCM_SEARCH'']
           (find_repo_dir h (parent start) (level + 1))"
proof (cases "MAX_GIT_SEARCH_DEPTH \<le> level")
  case True
  then show ?thesis using find_repo_dir_at_bound bound by blast
next
  case False
  then have l: "level < MAX_GIT_SEARCH_DEPTH" by simp
  show ?thesis
  proof (cases "is_dir h (joinpath start ''.git'')")
    case True
    then show ?thesis using l find_repo_dir_marker marker by blast
  next
    case nm: False
    show ?thesis
    proof (cases "is_env_disabled h ''AUTOBUILD_SCM_SEARCH'' \<or> parent start = start")
      case True
      then have "find_repo_dir h start level =
         ([IsDir (joinpath start ''.git''), EnvDisabled ''AUTOBUILD_SCM_SEARCH''], None)"
        using l nm find_repo_dir_disabled find_repo_dir_root by blast
      then show ?thesis using l nm True stop by blast
    next
      case False
      then show ?thesis using l nm find_repo_dir_up [of level h start] up by blast
    qed
  qed
qed

lemma find_repo_dir_probes:
  "int (length (filter is_probe (fst (find_repo_dir h start level))))
     \<le> max 0 (MAX_GIT_SEARCH_DEPTH - level)"
proof (induction h start level rule: find_repo_dir.induct)
  case (1 h start level)
  show ?case
  proof (cases h start level rule: find_repo_dir_cases)
    case bound
    then show ?thesis by simp
  next
    case marker
    then show ?thesis by simp
  next
    case stop
    then show ?thesis by simp
  next
    case up
    then have "int (length (filter is_probe (fst (find_repo_dir h (parent start) (level + 1)))))
                 \<le> max 0 (MAX_GIT_SEARCH_DEPTH - (level + 1))"
      using "1.IH" by simp
    then show ?thesis using up by (simp add: after_def)
  qed
qed

lemma find_repo_dir_length:
  "int (length (fst (find_repo_dir h start level))) \<le> 2 * max 0 (MAX_GIT_SEARCH_DEPTH - level)"
proof (induction h start level rule: find_repo_dir.induct)
  case (1 h start level)
  show ?case
  proof (cases h start level rule: find_repo_dir_cases)
    case bound
    then show ?thesis by simp
  next
    case marker
    then show ?thesis by simp
  next
    case stop
    then show ?thesis by simp
  next
    case up
    then have "int (length (fst (find_repo_dir h (parent start) (level + 1))))
                 \<le> 2 * max 0 (MAX_GIT_SEARCH_DEPTH - (level + 1))"
      using "1.IH" by simp
    then show ?thesis using up by (simp add: after_def)
  qed
qed

lemma find_repo_dir_no_cmd:
  "filter is_cmd (fst (find_repo_dir h start level)) = []"
proof (induction h start level rule: find_repo_dir.induct)
  case (1 h start level)
  show ?case
  proof (cases h start level rule: find_repo_dir_cases)
    case up
    then have "filter is_cmd (fst (find_repo_dir h (parent start) (level + 1))) = []"
      using "1.IH" by simp
    then show ?thesis using up by (simp add: after_def)
  qed simp_all
qed

lemma find_repo_dir_none:
  "(\<And>k. int k < MAX_GIT_SEARCH_DEPTH - level \<Longrightarrow>
        \<not> is_dir h (joinpath ((parent ^^ k) start) ''.git'')) \<Longrightarrow>
   snd (find_repo_dir h start level) = None"
proof (induction h start level rule: find_repo_dir.induct)
  case (1 h start level)
  show ?case
  proof (cases h start level rule: find_repo_dir_cases)
    case bound
    then show ?thesis by simp
  next
    case marker
    then have "\<not> is_dir h (joinpath ((parent ^^ 0) start) ''.git'')"
      by (intro "1.prems") simp
    with marker show ?thesis by simp
  next
    case stop
    then show ?thesis by simp
  next
    case up
    have "\<not> is_dir h (joinpath ((parent ^^ k) (parent start)) ''.git'')"
      if "int k < MAX_GIT_SEARCH_DEPTH - (level + 1)" for k
    proof -
      have "\<not> is_dir h (joinpath ((parent ^^ Suc k) start) ''.git'')"
        using that by (intro "1.prems") simp
      then show ?thesis by (simp add: funpow_swap1)
    qed
    then have "snd (find_repo_dir h (parent start) (level + 1)) = None"
      using up "1.IH" by simp
    then show ?thesis using up by (simp add: after_def)
  qed
qed

lemma find_repo_dir_some:
  "snd (find_repo_dir h start level) = Some d \<Longrightarrow>
   \<exists>k. int k < MAX_GIT_SEARCH_DEPTH - level \<and> d = (parent ^^ k) start \<and>
       is_dir h (joinpath d ''.git'')"
proof (induction h start level arbitrary: d rule: find_repo_dir.induct)
  case (1 h start level)
  show ?case
  proof (cases h start level rule: find_repo_dir_cases)
    case bound
    with "1.prems" show ?thesis by simp
  next
    case marker
    with "1.prems" have "d = (parent ^^ 0) start" "is_dir h (joinpath d ''.git'')"
      "int 0 < MAX_GIT_SEARCH_DEPTH - level" by auto
    then show ?thesis by blast
  next
    case stop
    with "1.prems" show ?thesis by simp
  next
    case up
    with "1.prems" have "snd (find_repo_dir h (parent start) (level + 1)) = Some d"
      by (simp add: after_def)
    moreover have "\<not> MAX_GIT_SEARCH_DEPTH \<le> level" using up(1) by simp
    ultimately obtain k where k: "int k < MAX_GIT_SEARCH_DEPTH - (level + 1)"
      "d = (parent ^^ k) (parent start)" "is_dir h (joinpath d ''.git'')"
      using up(2,3,4) "1.IH" [of d] by blast
    then have "int (Suc k) < MAX_GIT_SEARCH_DEPTH - level" "d = (parent ^^ Suc k) start"
      by (simp_all add: funpow_swap1)
    with k(3) show ?thesis by blast
  qed
qed

lemma parts_parent: "length (parts (parent p)) = length (parts p) - 1"
  by (simp add: parent_def)

lemma parts_parent_pow: "length (parts ((parent ^^ k) p)) = length (parts p) - k"
proof (induction k)
  case 0
  then show ?case by simp
next
  case (Suc k)
  have "length (parts ((parent ^^ Suc k) p)) = length (parts ((parent ^^ k) p)) - 1"
    by (simp add: parts_parent)
  then show ?case using Suc by simp
qed

lemma joinpath_inject: "joinpath p n = joinpath q n \<longleftrightarrow> p = q"
  by (cases p; cases q) (simp add: joinpath_def)

subsection \<open>Termination and the disabled search\<close>

lemma example_host_marker:
  "is_dir (example_host out off) (joinpath d ''.git'') \<longleftrightarrow> d = repo_path"
  by (simp add: example_host_def joinpath_inject)

lemma below_repo_no_marker: "k < n \<Longrightarrow> (parent ^^ k) (below_repo n) \<noteq> repo_path"
proof
  assume "k < n" and eq: "(parent ^^ k) (below_repo n) = repo_path"
  have "length (parts ((parent ^^ k) (below_repo n))) = Suc n - k"
    by (simp add: parts_parent_pow below_repo_def)
  with eq have "Suc n - k = 1" by (simp add: repo_path_def)
  with \<open>k < n\<close> show False by simp
qed

lemma Git_init_eq: "Git_init h root =
  (fst (find_repo_dir h root 0), \<lparr>repo_dir = snd (find_repo_dir h root 0)\<rparr>)"
  by (simp add: Git_init_def split: prod.split)

text \<open>
  C6. The search is a total function: the recursion is bounded by the distance of
  \<open>level\<close> from the maximum, and a request makes at most two calls on the host for each
  level left. It answers "not found" at the maximum depth; in a directory without the
  marker that is its own parent; in a directory without the marker when the upward
  search is disabled; and, from level \<open>0\<close>, whenever none of the twenty directories from
  the start upwards has the marker, wherever a marker may be above them.
\<close>

theorem find_repo_dir_terminates:
  "(MAX_GIT_SEARCH_DEPTH \<le> level \<longrightarrow> find_repo_dir h start level = ([], None)) \<and>
   (\<not> is_dir h (joinpath start ''.git'') \<and> parent start = start \<longrightarrow>
      snd (find_repo_dir h start level) = None) \<and>
   (\<not> is_dir h (joinpath start ''.git'') \<and> is_env_disabled h ''AUTOBUILD_SCM_SEARCH'' \<longrightarrow>
      snd (find_repo_dir h start level) = None) \<and>
   ((\<forall>k<20. \<not> is_dir h (joinpath ((parent ^^ k) start) ''.git'')) \<longrightarrow>
      snd (find_repo_dir h start 0) = None) \<and>
   int (length (fst (find_repo_dir h start level))) \<le> 2 * max 0 (MAX_GIT_SEARCH_DEPTH - level)"
proof (intro conjI impI)
  assume "MAX_GIT_SEARCH_DEPTH \<le> level"
  then show "find_repo_dir h start level = ([], None)" by (rule find_repo_dir_at_bound)
next
  assume "\<not> is_dir h (joinpath start ''.git'') \<and> parent start = start"
  then show "snd (find_repo_dir h start level) = None"
    by (cases h start level rule: find_repo_dir_cases) simp_all
next
  assume "\<not> is_dir h (joinpath start ''.git'') \<and> is_env_disabled h ''AUTOBUILD_SCM_SEARCH''"
  then show "snd (find_repo_dir h start level) = None"
    by (cases h start level rule: find_repo_dir_cases) simp_all
next
  assume a: "\<forall>k<20. \<not> is_dir h (joinpath ((parent ^^ k) start) ''.git'')"
  show "snd (find_repo_dir h start 0) = None"
  proof (rule find_repo_dir_none)
    fix k
    assume "int k < MAX_GIT_SEARCH_DEPTH - 0"
    then have "k < 20" by (simp add: MAX_GIT_SEARCH_DEPTH_def)
    with a show "\<not> is_dir h (joinpath ((parent ^^ k) start) ''.git'')" by blast
  qed
next
  show "int (length (fst (find_repo_dir h start level))) \<le> 2 * max 0 (MAX_GIT_SEARCH_DEPTH - level)"
    by (rule find_repo_dir_length)
qed

theorem find_repo_dir_terminates_witness:
  "MAX_GIT_SEARCH_DEPTH \<le> 20 \<and>
   find_repo_dir (example_host [] False) repo_path 20 = ([], None) \<and>
   parent \<lparr>anchor = ''/'', parts = []\<rparr> = \<lparr>anchor = ''/'', parts = []\<rparr> \<and>
   snd (find_repo_dir (example_host [] False) \<lparr>anchor = ''/'', parts = []\<rparr> 0) = None \<and>
   is_env_disabled (example_host [] True) ''AUTOBUILD_SCM_SEARCH'' \<and>
   snd (find_repo_dir (example_host [] True) (below_repo 1) 0) = None \<and>
   (parent ^^ 25) (below_repo 25) = repo_path \<and>
   is_dir (example_host [] False) (joinpath repo_path ''.git'') \<and>
   snd (find_repo_dir (example_host [] False) (below_repo 25) 0) = None"
proof -
  let ?h = "example_host [] False"
  let ?root = "\<lparr>anchor = ''/'', parts = []\<rparr>"
  have a: "MAX_GIT_SEARCH_DEPTH \<le> 20" by (simp add: MAX_GIT_SEARCH_DEPTH_def)
  have b: "parent ?root = ?root" by (simp add: parent_def)
  have b': "\<not> is_dir ?h (joinpath ?root ''.git'')"
    by (simp add: example_host_marker repo_path_def)
  have c: "is_env_disabled (example_host [] True) ''AUTOBUILD_SCM_SEARCH''"
    by (simp add: example_host_def)
  have c': "\<not> is_dir (example_host [] True) (joinpath (below_repo 1) ''.git'')"
    by (simp add: example_host_marker repo_path_def below_repo_def)
  have d: "\<forall>k<20. \<not> is_dir ?h (joinpath ((parent ^^ k) (below_repo 25)) ''.git'')"
    using below_repo_no_marker [of _ 25] by (simp add: example_host_marker)
  have e: "(parent ^^ 25) (below_repo 25) = repo_path"
    by (simp add: below_repo_def repo_path_def parent_def eval_nat_numeral)
  have 1: "find_repo_dir ?h repo_path 20 = ([], None)"
    using find_repo_dir_terminates [of 20 ?h repo_path] a by blast
  have 2: "snd (find_repo_dir ?h ?root 0) = None"
    using find_repo_dir_terminates [of 0 ?h ?root] b b' by blast
  have 3: "snd (find_repo_dir (example_host [] True) (below_repo 1) 0) = None"
    using find_repo_dir_terminates [of 0 "example_host [] True" "below_repo 1"] c c' by blast
  have 4: "snd (find_repo_dir ?h (below_repo 25) 0) = None"
    using find_repo_dir_terminates [of 0 ?h "below_repo 25"] d by blast
  have f: "is_dir ?h (joinpath repo_path ''.git'')" by (simp add: example_host_marker)
  from a b c e f 1 2 3 4 show ?thesis by blast
qed

text \<open>
  C7. With the upward search disabled, a request looks at the starting directory and
  nowhere else: it answers the starting directory when the marker is there, without
  consulting the toggle, and "not found" when it is not, whatever the ancestors hold.
\<close>

theorem search_disabled_checks_start_only:
  assumes "is_env_disabled h ''AUTOBUILD_SCM_SEARCH''" and "level < MAX_GIT_SEARCH_DEPTH"
  shows "find_repo_dir h start level =
           (if is_dir h (joinpath start ''.git'')
            then ([IsDir (joinpath start ''.git'')], Some start)
            else ([IsDir (joinpath start ''.git''), EnvDisabled ''AUTOBUILD_SCM_SEARCH''], None))"
  using assms by (simp add: find_repo_dir_marker find_repo_dir_disabled)

theorem search_disabled_checks_start_only_witness:
  "is_env_disabled (example_host [] True) ''AUTOBUILD_SCM_SEARCH'' \<and>
   0 < MAX_GIT_SEARCH_DEPTH \<and>
   is_dir (example_host [] True) (joinpath (parent (below_repo 1)) ''.git'') \<and>
   find_repo_dir (example_host [] True) (below_repo 1) 0 =
     ([IsDir (joinpath (below_repo 1) ''.git''), EnvDisabled ''AUTOBUILD_SCM_SEARCH''], None) \<and>
   find_repo_dir (example_host [] True) repo_path 0 =
     ([IsDir (joinpath repo_path ''.git'')], Some repo_path)"
proof -
  let ?h = "example_host [] True"
  have a: "is_env_disabled ?h ''AUTOBUILD_SCM_SEARCH''" by (simp add: example_host_def)
  have b: "0 < MAX_GIT_SEARCH_DEPTH" by (simp add: MAX_GIT_SEARCH_DEPTH_def)
  have c: "is_dir ?h (joinpath (parent (below_repo 1)) ''.git'')"
    by (simp add: example_host_marker repo_path_def below_repo_def parent_def)
  have d: "\<not> is_dir ?h (joinpath (below_repo 1) ''.git'')"
    by (simp add: example_host_marker repo_path_def below_repo_def)
  have e: "is_dir ?h (joinpath repo_path ''.git'')" by (simp add: example_host_marker)
  have 1: "find_repo_dir ?h (below_repo 1) 0 =
     ([IsDir (joinpath (below_repo 1) ''.git''), EnvDisabled ''AUTOBUILD_SCM_SEARCH''], None)"
    using search_disabled_checks_start_only [OF a b, of "below_repo 1"] d by simp
  have 2: "find_repo_dir ?h repo_path 0 = ([IsDir (joinpath repo_path ''.git'')], Some repo_path)"
    using search_disabled_checks_start_only [OF a b, of repo_path] e by simp
  from a b c 1 2 show ?thesis by blast
qed

subsection \<open>The depth of the search\<close>

lemma find_repo_dir_found:
  assumes "\<not> is_env_disabled h ''AUTOBUILD_SCM_SEARCH''"
    and "int k < MAX_GIT_SEARCH_DEPTH - level"
    and "is_dir h (joinpath ((parent ^^ k) start) ''.git'')"
    and "\<And>j. j < k \<Longrightarrow> \<not> is_dir h (joinpath ((parent ^^ j) start) ''.git'')"
    and "\<And>j. j < k \<Longrightarrow> parent ((parent ^^ j) start) \<noteq> (parent ^^ j) start"
  shows "snd (find_repo_dir h start level) = Some ((parent ^^ k) start)"
  using assms(2-)
proof (induction k arbitrary: start level)
  case 0
  then have "level < MAX_GIT_SEARCH_DEPTH" "is_dir h (joinpath start ''.git'')" by simp_all
  then show ?case by (simp add: find_repo_dir_marker)
next
  case (Suc k)
  have l: "level < MAX_GIT_SEARCH_DEPTH" using Suc.prems(1) by simp
  have nm: "\<not> is_dir h (joinpath start ''.git'')" using Suc.prems(3) [of 0] by simp
  have np: "parent start \<noteq> start" using Suc.prems(4) [of 0] by simp
  have "snd (find_repo_dir h (parent start) (level + 1)) = Some ((parent ^^ k) (parent start))"
  proof (rule Suc.IH)
    show "int k < MAX_GIT_SEARCH_DEPTH - (level + 1)" using Suc.prems(1) by simp
    show "is_dir h (joinpath ((parent ^^ k) (parent start)) ''.git'')"
      using Suc.prems(2) by (simp add: funpow_swap1)
    show "\<not> is_dir h (joinpath ((parent ^^ j) (parent start)) ''.git'')" if "j < k" for j
      using Suc.prems(3) [of "Suc j"] that by (simp add: funpow_swap1)
    show "parent ((parent ^^ j) (parent start)) \<noteq> (parent ^^ j) (parent start)" if "j < k" for j
      using Suc.prems(4) [of "Suc j"] that by (simp add: funpow_swap1)
  qed
  then show ?case
    using find_repo_dir_up [OF l nm assms(1) np] by (simp add: after_def funpow_swap1)
qed

lemma below_repo_up: "k \<le> n \<Longrightarrow> (parent ^^ k) (below_repo n) = below_repo (n - k)"
proof (induction k)
  case 0
  then show ?case by simp
next
  case (Suc k)
  then have "(parent ^^ k) (below_repo n) = below_repo (n - k)" by simp
  moreover have "parent (below_repo (Suc m)) = below_repo m" for m
  proof -
    have "butlast (replicate (Suc i) x) = replicate i x" for i and x :: string
      by (induction i) auto
    then have "butlast (''repo'' # replicate (Suc m) ''d'') = ''repo'' # replicate m ''d''"
      by (simp del: replicate_Suc)
    then show ?thesis by (simp add: below_repo_def parent_def del: replicate_Suc)
  qed
  moreover have "n - k = Suc (n - Suc k)" using Suc.prems by simp
  ultimately show ?case by simp
qed

lemma below_repo_zero: "below_repo 0 = repo_path"
  by (simp add: below_repo_def repo_path_def)

lemma below_repo_not_found:
  assumes "20 \<le> n"
  shows "snd (find_repo_dir (example_host out off) (below_repo n) 0) = None"
proof (rule find_repo_dir_none)
  fix k
  assume "int k < MAX_GIT_SEARCH_DEPTH - 0"
  then have "k < n" using assms by (simp add: MAX_GIT_SEARCH_DEPTH_def)
  then show "\<not> is_dir (example_host out off) (joinpath ((parent ^^ k) (below_repo n)) ''.git'')"
    using below_repo_no_marker by (simp add: example_host_marker)
qed

lemma below_repo_found:
  assumes "n < 20"
  shows "snd (find_repo_dir (example_host out False) (below_repo n) 0) = Some repo_path"
proof -
  let ?h = "example_host out False"
  have "snd (find_repo_dir ?h (below_repo n) 0) = Some ((parent ^^ n) (below_repo n))"
  proof (rule find_repo_dir_found)
    show "\<not> is_env_disabled ?h ''AUTOBUILD_SCM_SEARCH''" by (simp add: example_host_def)
    show "int n < MAX_GIT_SEARCH_DEPTH - 0" using assms by (simp add: MAX_GIT_SEARCH_DEPTH_def)
    show "is_dir ?h (joinpath ((parent ^^ n) (below_repo n)) ''.git'')"
      by (simp add: example_host_marker below_repo_up below_repo_zero)
    show "\<not> is_dir ?h (joinpath ((parent ^^ j) (below_repo n)) ''.git'')" if "j < n" for j
      using that below_repo_no_marker by (simp add: example_host_marker)
    show "parent ((parent ^^ j) (below_repo n)) \<noteq> (parent ^^ j) (below_repo n)" if "j < n" for j
    proof
      assume "parent ((parent ^^ j) (below_repo n)) = (parent ^^ j) (below_repo n)"
      then have "length (parts ((parent ^^ Suc j) (below_repo n)))
                   = length (parts ((parent ^^ j) (below_repo n)))" by simp
      then show False using that by (simp only: parts_parent_pow) (simp add: below_repo_def)
    qed
  qed
  then show ?thesis by (simp add: below_repo_up below_repo_zero)
qed

text \<open>
  C9. The bound is the constant \<open>20\<close>, and a request through \<open>Git\<close> starts at level \<open>0\<close>:
  it looks at no more than twenty directories; when none of the twenty directories from
  the start upwards has the marker it finds nothing, whatever lies further up; and a
  root it does find is fewer than twenty levels above the start.
\<close>

theorem search_depth_is_twenty:
  "MAX_GIT_SEARCH_DEPTH = 20 \<and>
   length (filter is_probe (fst (Git_init h root))) \<le> 20 \<and>
   ((\<forall>k<20. \<not> is_dir h (joinpath ((parent ^^ k) root) ''.git'')) \<longrightarrow>
      repo_dir (snd (Git_init h root)) = None) \<and>
   (\<forall>d. repo_dir (snd (Git_init h root)) = Some d \<longrightarrow>
      (\<exists>k<20. d = (parent ^^ k) root \<and> is_dir h (joinpath d ''.git'')))"
proof (intro conjI impI allI)
  show "MAX_GIT_SEARCH_DEPTH = 20" by (simp add: MAX_GIT_SEARCH_DEPTH_def)
next
  have "int (length (filter is_probe (fst (find_repo_dir h root 0)))) \<le> max 0 (MAX_GIT_SEARCH_DEPTH - 0)"
    by (rule find_repo_dir_probes)
  then show "length (filter is_probe (fst (Git_init h root))) \<le> 20"
    by (simp add: Git_init_eq MAX_GIT_SEARCH_DEPTH_def)
next
  assume a: "\<forall>k<20. \<not> is_dir h (joinpath ((parent ^^ k) root) ''.git'')"
  have "snd (find_repo_dir h root 0) = None"
  proof (rule find_repo_dir_none)
    fix k
    assume "int k < MAX_GIT_SEARCH_DEPTH - 0"
    then have "k < 20" by (simp add: MAX_GIT_SEARCH_DEPTH_def)
    with a show "\<not> is_dir h (joinpath ((parent ^^ k) root) ''.git'')" by blast
  qed
  then show "repo_dir (snd (Git_init h root)) = None" by (simp add: Git_init_eq)
next
  fix d
  assume "repo_dir (snd (Git_init h root)) = Some d"
  then have "snd (find_repo_dir h root 0) = Some d" by (simp add: Git_init_eq)
  then obtain k where "int k < MAX_GIT_SEARCH_DEPTH - 0" "d = (parent ^^ k) root"
    "is_dir h (joinpath d ''.git'')"
    using find_repo_dir_some by blast
  then show "\<exists>k<20. d = (parent ^^ k) root \<and> is_dir h (joinpath d ''.git'')"
    by (auto simp: MAX_GIT_SEARCH_DEPTH_def)
qed

theorem search_depth_is_twenty_witness:
  "is_dir (example_host [] False) (joinpath ((parent ^^ 20) (below_repo 20)) ''.git'') \<and>
   repo_dir (snd (Git_init (example_host [] False) (below_repo 20))) = None \<and>
   repo_dir (snd (Git_init (example_host [] False) (below_repo 19))) = Some repo_path \<and>
   (\<exists>k<20. repo_path = (parent ^^ k) (below_repo 19))"
proof -
  let ?h = "example_host [] False"
  have a: "\<forall>k<20. \<not> is_dir ?h (joinpath ((parent ^^ k) (below_repo 20)) ''.git'')"
    using below_repo_no_marker [of _ 20] by (simp add: example_host_marker)
  have b: "is_dir ?h (joinpath ((parent ^^ 20) (below_repo 20)) ''.git'')"
    by (simp add: example_host_marker below_repo_up below_repo_zero)
  have c: "repo_dir (snd (Git_init ?h (below_repo 19))) = Some repo_path"
    by (simp add: Git_init_eq below_repo_found)
  have 1: "repo_dir (snd (Git_init ?h (below_repo 20))) = None"
    using search_depth_is_twenty [of ?h "below_repo 20"] a by blast
  have 2: "\<exists>k<20. repo_path = (parent ^^ k) (below_repo 19)"
    using search_depth_is_twenty [of ?h "below_repo 19"] c by blast
  from b c 1 2 show ?thesis by blast
qed

subsection \<open>Absence of a root or of the tool\<close>

text \<open>
  C5. When git is not installed, \<open>get_version\<close> asks the host whether it is, and
  nothing else: no directory is looked at, the tool is not run, and the result is \<open>None\<close>.
  When the search from the starting path finds no root, the result is \<open>None\<close> as well and
  the tool is not run. Neither case raises.
\<close>

theorem get_version_absent:
  "(\<not> has_cmd h ''git'' \<longrightarrow> get_version h root = ([HasCmd ''git''], Inr None)) \<and>
   (snd (find_repo_dir h root 0) = None \<longrightarrow>
      snd (get_version h root) = Inr None \<and> filter is_cmd (fst (get_version h root)) = [])"
proof (intro conjI impI)
  assume "\<not> has_cmd h ''git''"
  then show "get_version h root = ([HasCmd ''git''], Inr None)"
    by (simp add: get_version_def new_client_def)
next
  assume nf: "snd (find_repo_dir h root 0) = None"
  show "snd (get_version h root) = Inr None"
    using nf
    by (simp add: get_version_def new_client_def Git_init_eq Git_version_def after_def)
next
  assume nf: "snd (find_repo_dir h root 0) = None"
  have "filter is_cmd (fst (find_repo_dir h root 0)) = []" by (rule find_repo_dir_no_cmd)
  then show "filter is_cmd (fst (get_version h root)) = []"
    using nf
    by (simp add: get_version_def new_client_def Git_init_eq Git_version_def after_def)
qed

theorem get_version_absent_witness:
  "\<not> has_cmd ((example_host ''1.2.3-0-gabc123'' False)\<lparr>has_cmd := (\<lambda>c. False)\<rparr>) ''git'' \<and>
   get_version ((example_host ''1.2.3-0-gabc123'' False)\<lparr>has_cmd := (\<lambda>c. False)\<rparr>) repo_path
     = ([HasCmd ''git''], Inr None) \<and>
   snd (find_repo_dir (example_host ''1.2.3-0-gabc123'' False) (below_repo 25) 0) = None \<and>
   snd (get_version (example_host ''1.2.3-0-gabc123'' False) (below_repo 25)) = Inr None \<and>
   filter is_cmd (fst (get_version (example_host ''1.2.3-0-gabc123'' False) (below_repo 25))) = []"
proof -
  let ?h = "example_host ''1.2.3-0-gabc123'' False"
  let ?n = "?h\<lparr>has_cmd := (\<lambda>c. False)\<rparr>"
  have a: "\<not> has_cmd ?n ''git''" by simp
  have b: "snd (find_repo_dir ?h (below_repo 25) 0) = None"
    by (rule below_repo_not_found) simp
  have 1: "get_version ?n repo_path = ([HasCmd ''git''], Inr None)"
    using get_version_absent [of ?n repo_path] a by blast
  have 2: "snd (get_version ?h (below_repo 25)) = Inr None \<and>
           filter is_cmd (fst (get_version ?h (below_repo 25))) = []"
    using get_version_absent [of ?h "below_repo 25"] b by blast
  from a b 1 2 show ?thesis by blast
qed

text \<open>
  C8. A handle built where the search found no root holds \<open>None\<close> for good: on any host,
  also one on which the marker has appeared since, its version, revision, url and branch
  are \<open>None\<close>, and asking for them makes no call at all: no directory is looked at and the
  tool is not run.
\<close>

theorem no_root_no_queries:
  assumes "snd (find_repo_dir h root 0) = None"
  shows "repo_dir (snd (Git_init h root)) = None \<and>
         Git_version h' (snd (Git_init h root)) = ([], Inr None) \<and>
         Git_revision h' (snd (Git_init h root)) = ([], Inr None) \<and>
         Git_url h' (snd (Git_init h root)) = ([], Inr None) \<and>
         Git_branch h' (snd (Git_init h root)) = ([], Inr None)"
  using assms
  by (simp add: Git_init_eq Git_version_def Git_revision_def Git_url_def Git_branch_def)

theorem no_root_no_queries_witness:
  "snd (find_repo_dir (example_host ''1.2.3-0-gabc123'' False) (below_repo 25) 0) = None \<and>
   Git_version ((example_host ''1.2.3-0-gabc123'' False)\<lparr>is_dir := (\<lambda>p. True)\<rparr>)
     (snd (Git_init (example_host ''1.2.3-0-gabc123'' False) (below_repo 25))) = ([], Inr None) \<and>
   Git_revision ((example_host ''1.2.3-0-gabc123'' False)\<lparr>is_dir := (\<lambda>p. True)\<rparr>)
     (snd (Git_init (example_host ''1.2.3-0-gabc123'' False) (below_repo 25))) = ([], Inr None) \<and>
   Git_url ((example_host ''1.2.3-0-gabc123'' False)\<lparr>is_dir := (\<lambda>p. True)\<rparr>)
     (snd (Git_init (example_host ''1.2.3-0-gabc123'' False) (below_repo 25))) = ([], Inr None) \<and>
   Git_branch ((example_host ''1.2.3-0-gabc123'' False)\<lparr>is_dir := (\<lambda>p. True)\<rparr>)
     (snd (Git_init (example_host ''1.2.3-0-gabc123'' False) (below_repo 25))) = ([], Inr None)"
proof -
  let ?h = "example_host ''1.2.3-0-gabc123'' False"
  have a: "snd (find_repo_dir ?h (below_repo 25) 0) = None"
    by (rule below_repo_not_found) simp
  show ?thesis
    using no_root_no_queries [OF a, of "?h\<lparr>is_dir := (\<lambda>p. True)\<rparr>"] a by blast
qed

text \<open>With a root, each accessor runs the tool once and hands its output on.\<close>

lemma accessors_with_root:
  assumes "repo_dir g = Some d"
  shows "fst (Git_revision h g) = [Cmd [''git'', ''-C'', path_str d, ''rev-parse'', ''HEAD'']]"
    "fst (Git_url h g) = [Cmd [''git'', ''-C'', path_str d, ''remote'', ''get-url'', ''origin'']]"
    "fst (Git_branch h g) =
       [Cmd [''git'', ''-C'', path_str d, ''rev-parse'', ''--abbrev-ref'', ''HEAD'']]"
  using assms
  by (simp_all add: Git_revision_def Git_url_def Git_branch_def opt_out_def Git_git_def
        repo_dir_str_def Let_def)

end
